theory Spec2Isabelle
  imports
    Main
    "HOL-Library.Multiset"
    "HOL-Library.Sublist"
    "HOL-Library.Char_ord"
    "HOL-Library.List_Lexorder"
begin

section \<open>The data of \<open>Prime.Widget.MultipleSelect\<close> (src/main/js/widget.js)\<close>

text \<open>
  The widget wraps a \<open>select\<close> element and keeps, next to it, a display container that
  holds an unordered list: one \<open>li\<close> (a chip) per selected option, followed by the row of
  the text input. The state below is the part of the document the widget reads and
  writes.

  An \<open>option\<close> element of the select: its \<open>value\<close>, its inner HTML (the display text)
  as \<open>getHTML\<close> returns it, and whether it is selected. The \<open>selected\<close> attribute that
  the widget sets and removes and the selectedness that it reads are taken to agree.
\<close>

record opt =
  ovalue :: string
  ohtml :: string
  oselected :: bool

text \<open>
  A chip, as \<open>selectOption\<close> builds it: an \<open>li\<close> with an id, a \<open>span\<close> whose HTML is set
  to the option's HTML (\<open>chipHTML\<close> is the markup given to \<open>setHTML\<close>) and an \<open>a\<close> whose
  \<open>value\<close> attribute is the option's value.
\<close>

record chip =
  chipID :: string
  chipHTML :: string
  chipValue :: string

text \<open>
  What the source throws: \<open>TypeError\<close> and \<open>Error\<close> with their messages, and the
  \<open>TypeError\<close> a JavaScript engine raises by itself when a property of \<open>null\<close> or
  \<open>undefined\<close> is read (its message depends on the engine).
\<close>

datatype error = TypeError string | Error string | NullTypeError

text \<open>
  The constructed widget together with the elements it owns. \<open>chips\<close> are the children
  of the list that precede the input row; the input row is always the last child, since
  \<open>rebuildDisplay\<close> appends it to the emptied list and every chip is inserted before it.
  \<open>listAttached\<close> tells whether the list is still part of the document (a lookup by id
  only sees attached elements).
\<close>

record widget =
  elementID :: string
  options :: "opt list"
  hidden :: bool
  searchDisplayed :: bool
  instanceCount :: nat
  displayID :: string
  listID :: string
  listAttached :: bool
  chips :: "chip list"
  inputOptionID :: string
  inputID :: string
  inputHidden :: bool

text \<open>
  An operation returns the widget (\<open>return this\<close>) or throws; either way the document is
  left in some state, so the outcome pairs the thrown error, if any, with that state.
\<close>

type_synonym outcome = "error option \<times> widget"

text \<open>The children of the list as they are rendered: the chips, then the input row.\<close>

datatype row = ChipRow chip | InputRow string

definition listChildren :: "widget \<Rightarrow> row list" where
  "listChildren w = map ChipRow (chips w) @ [InputRow (inputOptionID w)]"

section \<open>Identifiers and lookups\<close>

text \<open>
  JavaScript's \<open>String.prototype.replace\<close> with a string pattern replaces the first
  occurrence only. The pattern here is the one-character string \<open>' '\<close>.
\<close>

fun replaceFirst :: "char \<Rightarrow> string \<Rightarrow> string \<Rightarrow> string" where
  "replaceFirst p r [] = []"
| "replaceFirst p r (c # cs) = (if c = p then r @ cs else c # replaceFirst p r cs)"

text \<open>\<open>makeOptionID\<close>: \<open>this.element.getID() + '-option-' + option.getValue().replace(' ', '-')\<close>.\<close>

definition makeOptionID :: "widget \<Rightarrow> opt \<Rightarrow> string" where
  "makeOptionID w option = elementID w @ ''-option-'' @ replaceFirst CHR '' '' ''-'' (ovalue option)"

text \<open>
  \<open>Prime.Dom.queryByID\<close> for the identifiers that \<open>makeOptionID\<close> produces. The document
  is searched in tree order, so the list comes before its chips. The select, the display
  container, the input row and the input carry identifiers that no result of
  \<open>makeOptionID\<close> can equal (lemma \<open>makeOptionID_not_static\<close> below); the options carry
  no identifier, and the page is taken to hold no foreign element with such an identifier.
  The chips of a detached list are not found.
\<close>

datatype node = ListNode | ChipNode nat

fun findChip :: "string \<Rightarrow> chip list \<Rightarrow> nat option" where
  "findChip s [] = None"
| "findChip s (c # cs) = (if chipID c = s then Some 0 else map_option Suc (findChip s cs))"

definition queryByID :: "widget \<Rightarrow> string \<Rightarrow> node option" where
  "queryByID w s =
     (if \<not> listAttached w then None
      else if listID w = s then Some ListNode
      else map_option ChipNode (findChip s (chips w)))"

text \<open>\<open>removeFromDOM\<close> on a node found by such a lookup.\<close>

fun removeFromDOM :: "node \<Rightarrow> widget \<Rightarrow> widget" where
  "removeFromDOM ListNode w = w\<lparr>listAttached := False\<rparr>"
| "removeFromDOM (ChipNode k) w = w\<lparr>chips := take k (chips w) @ drop (Suc k) (chips w)\<rparr>"

text \<open>
  \<open>findOptionWithValue\<close>: the loop over \<open>this.element.domElement.options\<close> from index 0.
  The handle it returns is modelled by the position of the option; \<open>null\<close> is \<open>None\<close>.
\<close>

function findOptionFrom :: "widget \<Rightarrow> string \<Rightarrow> nat \<Rightarrow> nat option" where
  "findOptionFrom w v i =
     (if i < length (options w)
      then (if ovalue (options w ! i) = v then Some i else findOptionFrom w v (Suc i))
      else None)"
  by pat_completeness auto
termination
  by (relation "measure (\<lambda>(w, v, i). length (options w) - i)") auto

declare findOptionFrom.simps [simp del]

definition findOptionWithValue :: "widget \<Rightarrow> string \<Rightarrow> nat option" where
  "findOptionWithValue w v = findOptionFrom w v 0"

definition containsOptionWithValue :: "widget \<Rightarrow> string \<Rightarrow> bool" where
  "containsOptionWithValue w v \<longleftrightarrow> findOptionWithValue w v \<noteq> None"

section \<open>The operations\<close>

text \<open>
  \<open>addOption\<close>: nothing happens when the value is already present; otherwise a new
  \<open>option\<close> element is appended to the select. It is not selected. The display text is
  stored with \<open>setHTML\<close>, so what the option holds afterwards is the inner HTML that the
  browser gives back for this markup (\<open>Tom & Jerry\<close> reads back as \<open>Tom &amp; Jerry\<close>).
  Parsing and serialising markup is the browser's work and not part of the sources: it is
  the parameter \<open>innerHTML\<close>, from the markup set to the HTML read back.
\<close>

definition addOption :: "(string \<Rightarrow> string) \<Rightarrow> string \<Rightarrow> string \<Rightarrow> widget \<Rightarrow> outcome" where
  "addOption innerHTML v display w =
     (if containsOptionWithValue w v then (None, w)
      else (None, w\<lparr>options := options w @
              [\<lparr>ovalue = v, ohtml = innerHTML display, oselected = False\<rparr>]\<rparr>))"

text \<open>
  The argument of a handle based operation: a \<open>Prime.Dom.Element\<close> wrapping an option of
  the select, given by the option's position, or a value that is not a
  \<open>Prime.Dom.Element\<close> at all. A position past the end stands for a wrapper around
  \<open>undefined\<close> (what \<open>options[i]\<close> yields there): the first access to the wrapped element
  raises the engine's \<open>TypeError\<close>, before anything is changed.
\<close>

datatype handle = Element nat | NotElement

text \<open>
  \<open>removeOption\<close>: the option leaves the select, and the element bearing the option's
  chip identifier, if the document has one, leaves the document.
\<close>

definition removeOption :: "handle \<Rightarrow> widget \<Rightarrow> outcome" where
  "removeOption option w =
     (case option of
        NotElement \<Rightarrow>
          (Some (TypeError ''MultipleSelect#removeOption only takes Prime.Dom.Element instances''), w)
      | Element i \<Rightarrow>
          if length (options w) \<le> i then (Some NullTypeError, w)
          else
            let removed = options w ! i;
                w1 = w\<lparr>options := take i (options w) @ drop (Suc i) (options w)\<rparr>;
                id = makeOptionID w1 removed
            in (case queryByID w1 id of
                  None \<Rightarrow> (None, w1)
                | Some displayOption \<Rightarrow> (None, removeFromDOM displayOption w1)))"

text \<open>
  \<open>removeAllOptions\<close>: the loop \<open>for (i = options.length - 1; i >= 0; i--)\<close> over the live
  collection; an exception of \<open>removeOption\<close> would leave the loop.
\<close>

function removeAllLoop :: "int \<Rightarrow> widget \<Rightarrow> outcome" where
  "removeAllLoop i w =
     (if 0 \<le> i
      then (case removeOption (Element (nat i)) w of
              (Some e, w') \<Rightarrow> (Some e, w')
            | (None, w') \<Rightarrow> removeAllLoop (i - 1) w')
      else (None, w))"
  by pat_completeness auto
termination
  by (relation "measure (\<lambda>(i, w). nat (i + 1))") auto

declare removeAllLoop.simps [simp del]

definition removeAllOptions :: "widget \<Rightarrow> outcome" where
  "removeAllOptions w = removeAllLoop (int (length (options w)) - 1) w"

text \<open>
  \<open>selectOption\<close>: when no element of the document bears the option's chip identifier,
  the option is marked selected and a chip is inserted before the input row; otherwise
  nothing happens.
\<close>

definition selectOption :: "handle \<Rightarrow> widget \<Rightarrow> outcome" where
  "selectOption option w =
     (case option of
        NotElement \<Rightarrow>
          (Some (TypeError ''MultipleSelect#selectOption only takes Prime.Dom.Element instances''), w)
      | Element i \<Rightarrow>
          if length (options w) \<le> i then (Some NullTypeError, w)
          else
            let selected = options w ! i;
                id = makeOptionID w selected
            in if queryByID w id = None
               then (None, w\<lparr>options := (options w)[i := selected\<lparr>oselected := True\<rparr>],
                              chips := chips w @
                                [\<lparr>chipID = id, chipHTML = ohtml selected,
                                  chipValue = ovalue selected\<rparr>]\<rparr>)
               else (None, w))"

text \<open>
  \<open>deselectOption\<close>: the \<open>selected\<close> attribute is removed, and the element bearing the
  option's chip identifier, if the document has one, leaves the document. The method has
  no guard on its argument; it is modelled for the wrapper of the option at a position.
\<close>

definition deselectOption :: "nat \<Rightarrow> widget \<Rightarrow> outcome" where
  "deselectOption i w =
     (if length (options w) \<le> i then (Some NullTypeError, w)
      else
        let option = (options w ! i)\<lparr>oselected := False\<rparr>;
            w1 = w\<lparr>options := (options w)[i := option]\<rparr>;
            id = makeOptionID w1 option
        in (case queryByID w1 id of
              None \<Rightarrow> (None, w1)
            | Some displayOption \<Rightarrow> (None, removeFromDOM displayOption w1)))"

text \<open>The value keyed variants look the option up first and throw when there is none.\<close>

definition notFound :: "string \<Rightarrow> error" where
  "notFound v =
     Error (''MultipleSelect doesn'' @ [CHR 0x27] @ ''t contain an option with the value ['' @ v @ '']'')"

definition deselectOptionWithValue :: "string \<Rightarrow> widget \<Rightarrow> outcome" where
  "deselectOptionWithValue v w =
     (case findOptionWithValue w v of
        None \<Rightarrow> (Some (notFound v), w)
      | Some option \<Rightarrow> deselectOption option w)"

definition removeOptionWithValue :: "string \<Rightarrow> widget \<Rightarrow> outcome" where
  "removeOptionWithValue v w =
     (case findOptionWithValue w v of
        None \<Rightarrow> (Some (notFound v), w)
      | Some option \<Rightarrow> removeOption (Element option) w)"

definition selectOptionWithValue :: "string \<Rightarrow> widget \<Rightarrow> outcome" where
  "selectOptionWithValue v w =
     (case findOptionWithValue w v of
        None \<Rightarrow> (Some (notFound v), w)
      | Some option \<Rightarrow> selectOption (Element option) w)"

text \<open>
  \<open>rebuildDisplay\<close>: every child of the list is removed, a fresh input row (hidden) with
  its input is appended, and \<open>selectOption\<close> is called for each option that is selected.
\<close>

function rebuildLoop :: "nat \<Rightarrow> widget \<Rightarrow> outcome" where
  "rebuildLoop i w =
     (if i < length (options w)
      then (if oselected (options w ! i)
            then (case selectOption (Element i) w of
                    (Some e, w') \<Rightarrow> (Some e, w')
                  | (None, w') \<Rightarrow> rebuildLoop (Suc i) w')
            else rebuildLoop (Suc i) w)
      else (None, w))"
  by pat_completeness auto
termination
  by (relation "measure (\<lambda>(i, w). length (options w) - i)")
    (auto simp add: selectOption_def Let_def split: if_splits)

declare rebuildLoop.simps [simp del]

definition rebuildDisplay :: "widget \<Rightarrow> outcome" where
  "rebuildDisplay w =
     (let id = elementID w
      in rebuildLoop 0
           (w\<lparr>chips := [],
              inputOptionID := id @ ''-input-option'',
              inputHidden := True,
              inputID := id @ ''-input''\<rparr>))"

section \<open>The constructor\<close>

text \<open>
  What the constructor finds: the element it is given (tag name, \<open>multiple\<close> attribute
  as \<open>getAttribute\<close> returns it, \<open>None\<close> for \<open>null\<close>; id, options), the static counter
  \<open>Prime.Widget.MultipleSelect.count\<close>, and what the document holds under the identifiers
  \<open>id + '-display'\<close> and \<open>id + '-option-list'\<close>: nothing, a display container without a
  list, or a display container and a list with some children.
\<close>

datatype display = NoDisplay | DisplayWithoutList | DisplayWithList "chip list"

record page =
  tagName :: string
  multipleAttr :: "string option"
  idAttr :: "string option"
  pageOptions :: "opt list"
  pageCount :: nat
  pageDisplay :: display

text \<open>A number as JavaScript's string concatenation writes it (decimal digits).\<close>

function string_of_nat :: "nat \<Rightarrow> string" where
  "string_of_nat n =
     (if n < 10 then [char_of (48 + n)]
      else string_of_nat (n div 10) @ [char_of (48 + n mod 10)])"
  by pat_completeness auto
termination
  by (relation "measure (\<lambda>n. n)") auto

declare string_of_nat.simps [simp del]

definition notSelect :: error where
  "notSelect = TypeError ''You can only use Prime.Widget.MultipleSelect with select elements''"

definition notMultiple :: error where
  "notMultiple =
     TypeError (''The select box you are attempting to convert to a Prime.Widget.MultipleSelect must have the multiple=''
       @ [CHR 0x22] @ ''multiple'' @ [CHR 0x22] @ '' attribute set'')"

text \<open>
  The widget as lines 35 to 59 leave it, before \<open>rebuildDisplay\<close> runs: the select is
  hidden, the display container and the list exist under their identifiers, created or
  found. The input row does not exist yet; its identifiers are empty until
  \<open>rebuildDisplay\<close> sets them.
\<close>

definition beforeRebuild :: "string \<Rightarrow> nat \<Rightarrow> opt list \<Rightarrow> chip list \<Rightarrow> widget" where
  "beforeRebuild eid n os children =
     \<lparr>elementID = eid, options = os, hidden = True, searchDisplayed = False,
      instanceCount = n, displayID = eid @ ''-display'', listID = eid @ ''-option-list'',
      listAttached = True, chips = children, inputOptionID = [], inputID = [],
      inputHidden = False\<rparr>"

text \<open>
  The constructor. A display container found without its list leaves
  \<open>displayContainerSelectedOptionList\<close> \<open>null\<close>, and \<open>rebuildDisplay\<close> then fails on its
  first line.
\<close>

definition construct :: "page \<Rightarrow> error + widget" where
  "construct p =
     (if tagName p \<noteq> ''SELECT'' then Inl notSelect
      else if multipleAttr p \<noteq> Some ''multiple'' then Inl notMultiple
      else
        let (eid, n) =
              (case idAttr p of
                 None \<Rightarrow> (''prime-multiple-select'' @ string_of_nat (pageCount p), Suc (pageCount p))
               | Some s \<Rightarrow> (s, pageCount p))
        in (case pageDisplay p of
              DisplayWithoutList \<Rightarrow> Inl NullTypeError
            | NoDisplay \<Rightarrow>
                (case rebuildDisplay (beforeRebuild eid n (pageOptions p) []) of
                   (Some e, w) \<Rightarrow> Inl e
                 | (None, w) \<Rightarrow> Inr w)
            | DisplayWithList children \<Rightarrow>
                (case rebuildDisplay (beforeRebuild eid n (pageOptions p) children) of
                   (Some e, w) \<Rightarrow> Inl e
                 | (None, w) \<Rightarrow> Inr w)))"

text \<open>The id the constructor works with: the element's own, or the generated one.\<close>

definition givenID :: "page \<Rightarrow> string" where
  "givenID p = (case idAttr p of
      None \<Rightarrow> ''prime-multiple-select'' @ string_of_nat (pageCount p)
    | Some s \<Rightarrow> s)"

text \<open>
  The two errors of the constructor's guards: the construction-time contract violations.
\<close>

definition isConfigurationError :: "error \<Rightarrow> bool" where
  "isConfigurationError e \<longleftrightarrow> e = notSelect \<or> e = notMultiple"

section \<open>The selectable options\<close>

text \<open>\<open>String.prototype.startsWith\<close>.\<close>

fun startsWith :: "string \<Rightarrow> string \<Rightarrow> bool" where
  "startsWith s [] = True"
| "startsWith [] (p # ps) = False"
| "startsWith (c # cs) (p # ps) = (c = p \<and> startsWith cs ps)"

text \<open>
  \<open>selectableOptionsForPrefix\<close>: the loop collects the HTML of every option that is not
  selected and, when a prefix is given, starts with it; \<open>None\<close> stands for a prefix that
  is \<open>undefined\<close> or \<open>null\<close>. \<open>Array.prototype.sort\<close> without a comparator orders strings
  by their code units, which is the lexicographic order of the lists of characters.
\<close>

function selectableLoop :: "widget \<Rightarrow> string option \<Rightarrow> nat \<Rightarrow> string list \<Rightarrow> string list" where
  "selectableLoop w pfx i selectableOptions =
     (if i < length (options w)
      then (let option = options w ! i
            in if oselected option then selectableLoop w pfx (Suc i) selectableOptions
               else (let html = ohtml option
                     in if pfx = None \<or> startsWith html (the pfx)
                        then selectableLoop w pfx (Suc i) (selectableOptions @ [html])
                        else selectableLoop w pfx (Suc i) selectableOptions))
      else selectableOptions)"
  by pat_completeness auto
termination
  by (relation "measure (\<lambda>(w, pfx, i, acc). length (options w) - i)") auto

declare selectableLoop.simps [simp del]

definition selectableOptionsForPrefix :: "widget \<Rightarrow> string option \<Rightarrow> string list" where
  "selectableOptionsForPrefix w pfx =
     (let selectableOptions = selectableLoop w pfx 0 []
      in if 0 < length selectableOptions then sort selectableOptions else selectableOptions)"

text \<open>
  An option is selectable for a prefix when it is not selected and its HTML starts with
  the prefix, letter case respected; every unselected option is when no prefix is given.
\<close>

definition selectable :: "string option \<Rightarrow> opt \<Rightarrow> bool" where
  "selectable pfx option \<longleftrightarrow>
     \<not> oselected option \<and> (case pfx of None \<Rightarrow> True | Some q \<Rightarrow> prefix q (ohtml option))"

section \<open>The search as the specification words it\<close>

text \<open>Lower case of the letters A to Z; the other characters are kept.\<close>

definition toLowerCase :: "string \<Rightarrow> string" where
  "toLowerCase s =
     map (\<lambda>c. if CHR ''A'' \<le> c \<and> c \<le> CHR ''Z'' then char_of (of_char c + (32::nat)) else c) s"

text \<open>
  The default search in the words of the specification (section 4.1): the sorted display
  texts of the options that are not selected and whose display text contains the query
  as a substring, letter case ignored; all of them when the query is empty or absent.
\<close>

definition search_spec :: "widget \<Rightarrow> string option \<Rightarrow> string list" where
  "search_spec w queryText =
     sort (map ohtml (filter
       (\<lambda>option. \<not> oselected option \<and>
          (case queryText of
             None \<Rightarrow> True
           | Some q \<Rightarrow> q = [] \<or> sublist (toLowerCase q) (toLowerCase (ohtml option))))
       (options w)))"

section \<open>Sequences of calls\<close>

text \<open>
  A call that adds an option, or removes the option with a value (the handle is looked up
  by \<open>findOptionWithValue\<close>, as \<open>removeOptionWithValue\<close> does). A call that throws leaves
  the document as the exception found it, and the next call runs on that state.
\<close>

datatype call = AddOption string string | RemoveOption string

fun applyCall :: "(string \<Rightarrow> string) \<Rightarrow> call \<Rightarrow> widget \<Rightarrow> widget" where
  "applyCall innerHTML (AddOption v display) w = snd (addOption innerHTML v display w)"
| "applyCall innerHTML (RemoveOption v) w = snd (removeOptionWithValue v w)"

text \<open>
  The net presence of a value after a sequence of calls, read off the calls alone: the
  value was there at the start or has been added, and has not been removed since.
\<close>

fun netPresence :: "bool \<Rightarrow> call list \<Rightarrow> string \<Rightarrow> bool" where
  "netPresence present [] v = present"
| "netPresence present (AddOption u display # cs) v = netPresence (present \<or> u = v) cs v"
| "netPresence present (RemoveOption u # cs) v = netPresence (present \<and> u \<noteq> v) cs v"

section \<open>States of the test page\<close>

text \<open>
  The display texts of the tests are words of letters and digits, without markup or
  character references: their inner HTML reads back as it was written.
\<close>

definition asWritten :: "string \<Rightarrow> string" where
  "asWritten markup = markup"

text \<open>
  The select of the test page (\<open>#multiple-select\<close>), emptied, and the widget built on it;
  then the widget after \<open>addOption\<close> of one, two and three, as the tests set it up before
  anything is selected.
\<close>

definition emptySelect :: page where
  "emptySelect =
     \<lparr>tagName = ''SELECT'', multipleAttr = Some ''multiple'',
      idAttr = Some ''multiple-select'', pageOptions = [], pageCount = 1,
      pageDisplay = NoDisplay\<rparr>"

definition emptyWidget :: widget where
  "emptyWidget =
     \<lparr>elementID = ''multiple-select'', options = [],
      hidden = True, searchDisplayed = False, instanceCount = 1,
      displayID = ''multiple-select-display'', listID = ''multiple-select-option-list'',
      listAttached = True, chips = [],
      inputOptionID = ''multiple-select-input-option'', inputID = ''multiple-select-input'',
      inputHidden = True\<rparr>"

definition oneTwoThree :: widget where
  "oneTwoThree =
     emptyWidget\<lparr>options :=
       [\<lparr>ovalue = ''one'', ohtml = ''One'', oselected = False\<rparr>,
        \<lparr>ovalue = ''two'', ohtml = ''Two'', oselected = False\<rparr>,
        \<lparr>ovalue = ''three'', ohtml = ''Three'', oselected = False\<rparr>]\<rparr>"

text \<open>
  A select written \<open><select multiple>\<close>: the attribute is present, which is what makes a
  select take several values, and its value is the empty string.
\<close>

definition booleanMultiple :: page where
  "booleanMultiple = emptySelect\<lparr>multipleAttr := Some []\<rparr>"

section \<open>Chips and selected options\<close>

text \<open>The chip that \<open>selectOption\<close> builds for an option.\<close>

definition chipOf :: "widget \<Rightarrow> opt \<Rightarrow> chip" where
  "chipOf w option =
     \<lparr>chipID = makeOptionID w option, chipHTML = ohtml option, chipValue = ovalue option\<rparr>"

text \<open>
  The rendered chips correspond one to one with the selected options: the list is part of
  the document, and its chips are, with multiplicities, the chips of the options that are
  marked selected.
\<close>

definition chipsMatchSelection :: "widget \<Rightarrow> bool" where
  "chipsMatchSelection w \<longleftrightarrow>
     listAttached w \<and> mset (chips w) = mset (map (chipOf w) (filter oselected (options w)))"

text \<open>
  The chip identifiers of the options are pairwise distinct, and none of them is the
  identifier of the list itself.
\<close>

definition chipIDsDistinct :: "widget \<Rightarrow> bool" where
  "chipIDsDistinct w \<longleftrightarrow>
     distinct (map (makeOptionID w) (options w))
     \<and> listID w \<notin> set (map (makeOptionID w) (options w))"

text \<open>The public operations that change options, selection or chips.\<close>

datatype operation =
    Add string string
  | Remove handle
  | Select handle
  | Deselect nat
  | RemoveWithValue string
  | SelectWithValue string
  | DeselectWithValue string

fun perform :: "(string \<Rightarrow> string) \<Rightarrow> operation \<Rightarrow> widget \<Rightarrow> outcome" where
  "perform innerHTML (Add v display) w = addOption innerHTML v display w"
| "perform innerHTML (Remove option) w = removeOption option w"
| "perform innerHTML (Select option) w = selectOption option w"
| "perform innerHTML (Deselect i) w = deselectOption i w"
| "perform innerHTML (RemoveWithValue v) w = removeOptionWithValue v w"
| "perform innerHTML (SelectWithValue v) w = selectOptionWithValue v w"
| "perform innerHTML (DeselectWithValue v) w = deselectOptionWithValue v w"

text \<open>
  Two widgets on the emptied select of the test page. The first has the options \<open>a b\<close>
  and \<open>a-b\<close>, of which \<open>a b\<close> has been selected; the second has the single option
  \<open>list\<close>, not selected.
\<close>

definition twoSpellings :: widget where
  "twoSpellings =
     emptyWidget\<lparr>
       options := [\<lparr>ovalue = ''a b'', ohtml = ''A B'', oselected = True\<rparr>,
                   \<lparr>ovalue = ''a-b'', ohtml = ''A-B'', oselected = False\<rparr>],
       chips := [\<lparr>chipID = ''multiple-select-option-a-b'', chipHTML = ''A B'',
                  chipValue = ''a b''\<rparr>]\<rparr>"

definition listOption :: widget where
  "listOption =
     emptyWidget\<lparr>options := [\<lparr>ovalue = ''list'', ohtml = ''List'', oselected = False\<rparr>]\<rparr>"

text \<open>
  The widget as the tests set it up: one, two and three added, one and three selected.
\<close>

definition oneAndThreeSelected :: widget where
  "oneAndThreeSelected =
     emptyWidget\<lparr>
       options := [\<lparr>ovalue = ''one'', ohtml = ''One'', oselected = True\<rparr>,
                   \<lparr>ovalue = ''two'', ohtml = ''Two'', oselected = False\<rparr>,
                   \<lparr>ovalue = ''three'', ohtml = ''Three'', oselected = True\<rparr>],
       chips := [\<lparr>chipID = ''multiple-select-option-one'', chipHTML = ''One'',
                  chipValue = ''one''\<rparr>,
                 \<lparr>chipID = ''multiple-select-option-three'', chipHTML = ''Three'',
                  chipValue = ''three''\<rparr>]\<rparr>"

section \<open>Properties\<close>

subsection \<open>Looking an option up by its value\<close>

lemma findOptionFrom_None:
  "findOptionFrom w v i = None \<longleftrightarrow> v \<notin> ovalue ` set (drop i (options w))"
proof (induction w v i rule: findOptionFrom.induct)
  case (1 w v i)
  show ?case
  proof (cases "i < length (options w)")
    case True
    then have d: "drop i (options w) = options w ! i # drop (Suc i) (options w)"
      by (simp add: Cons_nth_drop_Suc)
    show ?thesis
    proof (cases "ovalue (options w ! i) = v")
      case True
      with \<open>i < length (options w)\<close> d show ?thesis
        by (subst findOptionFrom.simps) auto
    next
      case False
      with \<open>i < length (options w)\<close> d "1.IH" show ?thesis
        by (subst findOptionFrom.simps) auto
    qed
  next
    case False
    then show ?thesis
      by (subst findOptionFrom.simps) simp
  qed
qed

lemma findOptionFrom_Some:
  "findOptionFrom w v i = Some k \<Longrightarrow>
     i \<le> k \<and> k < length (options w) \<and> ovalue (options w ! k) = v
     \<and> v \<notin> ovalue ` set (take (k - i) (drop i (options w)))"
proof (induction w v i rule: findOptionFrom.induct)
  case (1 w v i)
  show ?case
  proof (cases "i < length (options w)")
    case True
    note lt = this
    show ?thesis
    proof (cases "ovalue (options w ! i) = v")
      case True
      with lt "1.prems" have "k = i"
        by (subst (asm) findOptionFrom.simps) simp
      with True lt show ?thesis by simp
    next
      case False
      with lt "1.prems" have r: "findOptionFrom w v (Suc i) = Some k"
        by (subst (asm) findOptionFrom.simps) simp
      from "1.IH" [OF lt False r] have ih: "Suc i \<le> k" "k < length (options w)"
        "ovalue (options w ! k) = v"
        "v \<notin> ovalue ` set (take (k - Suc i) (drop (Suc i) (options w)))"
        by auto
      from lt have d: "drop i (options w) = options w ! i # drop (Suc i) (options w)"
        by (simp add: Cons_nth_drop_Suc)
      from ih(1) have "k - i = Suc (k - Suc i)" by simp
      with d ih False show ?thesis by auto
    qed
  next
    case False
    with "1.prems" show ?thesis
      by (subst (asm) findOptionFrom.simps) simp
  qed
qed

lemma containsOptionWithValue_iff:
  "containsOptionWithValue w v \<longleftrightarrow> v \<in> ovalue ` set (options w)"
  using findOptionFrom_None [of w v 0]
  by (simp add: containsOptionWithValue_def findOptionWithValue_def)

subsection \<open>Removing options\<close>

lemma removeFromDOM_options [simp]: "options (removeFromDOM n w) = options w"
  by (cases n) simp_all

lemma removeOption_options:
  assumes "i < length (options w)"
  shows "fst (removeOption (Element i) w) = None"
    and "options (snd (removeOption (Element i) w)) = take i (options w) @ drop (Suc i) (options w)"
proof -
  show "fst (removeOption (Element i) w) = None"
    using assms by (simp add: removeOption_def Let_def split: option.splits)
  show "options (snd (removeOption (Element i) w)) = take i (options w) @ drop (Suc i) (options w)"
    using assms
    by (simp add: removeOption_def Let_def split: option.splits)
qed

lemma removeAllLoop_empties:
  "int (length (options w)) = i + 1 \<Longrightarrow>
     fst (removeAllLoop i w) = None \<and> options (snd (removeAllLoop i w)) = []"
proof (induction i w rule: removeAllLoop.induct)
  case (1 i w)
  show ?case
  proof (cases "0 \<le> i")
    case True
    with "1.prems" have lt: "nat i < length (options w)" by simp
    obtain w' where r: "removeOption (Element (nat i)) w = (None, w')"
      using removeOption_options(1) [OF lt] by (cases "removeOption (Element (nat i)) w") simp
    from removeOption_options(2) [OF lt] r
    have "options w' = take (nat i) (options w) @ drop (Suc (nat i)) (options w)" by simp
    with "1.prems" True have len: "int (length (options w')) = (i - 1) + 1" by simp
    from "1.IH" True r len
    have "fst (removeAllLoop (i - 1) w') = None \<and> options (snd (removeAllLoop (i - 1) w')) = []"
      by simp
    with True r show ?thesis
      by (subst (1 2) removeAllLoop.simps) simp
  next
    case False
    with "1.prems" have "length (options w) = 0" by linarith
    then have "options w = []" by simp
    with False show ?thesis
      by (subst (1 2) removeAllLoop.simps) simp
  qed
qed

text \<open>
  Claim C10. From every state, \<open>removeAllOptions\<close> returns without an exception and
  leaves the select without options, so that \<open>containsOptionWithValue\<close> is false for
  every value: the loop runs from the last position down, each step removes the option
  at the current end of the live collection, and no position is skipped.
\<close>

theorem removeAllOptions_empties:
  "fst (removeAllOptions w) = None
   \<and> options (snd (removeAllOptions w)) = []
   \<and> (\<forall>v. \<not> containsOptionWithValue (snd (removeAllOptions w)) v)"
  using removeAllLoop_empties [of w "int (length (options w)) - 1"]
  by (simp add: removeAllOptions_def containsOptionWithValue_iff)

subsection \<open>Adding and removing options\<close>

lemma without_middle:
  "distinct (map f (ys @ x # zs)) \<Longrightarrow> f ` set (ys @ zs) = f ` set (ys @ x # zs) - {f x}"
  "distinct (map f (ys @ x # zs)) \<Longrightarrow> distinct (map f (ys @ zs))"
  by (auto intro: rev_image_eqI)

lemma values_without_nth:
  assumes "distinct (map f xs)" and "k < length xs"
  shows "f ` set (take k xs @ drop (Suc k) xs) = f ` set xs - {f (xs ! k)}"
    and "distinct (map f (take k xs @ drop (Suc k) xs))"
proof -
  from assms(2) have xs: "xs = take k xs @ xs ! k # drop (Suc k) xs"
    by (rule id_take_nth_drop)
  with assms(1) have d: "distinct (map f (take k xs @ xs ! k # drop (Suc k) xs))"
    by simp
  from without_middle(1) [OF d] xs
  show "f ` set (take k xs @ drop (Suc k) xs) = f ` set xs - {f (xs ! k)}"
    by simp
  from without_middle(2) [OF d]
  show "distinct (map f (take k xs @ drop (Suc k) xs))" .
qed

lemma addOption_values:
  "ovalue ` set (options (snd (addOption innerHTML u d w))) = insert u (ovalue ` set (options w))"
  by (auto simp add: addOption_def containsOptionWithValue_iff)

lemma addOption_distinct:
  "distinct (map ovalue (options w)) \<Longrightarrow>
     distinct (map ovalue (options (snd (addOption innerHTML u d w))))"
  by (auto simp add: addOption_def containsOptionWithValue_iff)

lemma removeOptionWithValue_values:
  assumes "distinct (map ovalue (options w))"
  shows "ovalue ` set (options (snd (removeOptionWithValue u w))) = ovalue ` set (options w) - {u}"
    and "distinct (map ovalue (options (snd (removeOptionWithValue u w))))"
proof -
  show "ovalue ` set (options (snd (removeOptionWithValue u w))) = ovalue ` set (options w) - {u}"
  proof (cases "findOptionWithValue w u")
    case None
    then have "u \<notin> ovalue ` set (options w)"
      using findOptionFrom_None [of w u 0] by (simp add: findOptionWithValue_def)
    with None show ?thesis by (simp add: removeOptionWithValue_def)
  next
    case (Some k)
    then have k: "k < length (options w)" "ovalue (options w ! k) = u"
      using findOptionFrom_Some [of w u 0 k] by (simp_all add: findOptionWithValue_def)
    with Some assms show ?thesis
      using values_without_nth(1) [of ovalue "options w" k]
      by (simp add: removeOptionWithValue_def removeOption_options(2))
  qed
  show "distinct (map ovalue (options (snd (removeOptionWithValue u w))))"
  proof (cases "findOptionWithValue w u")
    case None
    with assms show ?thesis by (simp add: removeOptionWithValue_def)
  next
    case (Some k)
    then have k: "k < length (options w)"
      using findOptionFrom_Some [of w u 0 k] by (simp_all add: findOptionWithValue_def)
    with Some assms show ?thesis
      using values_without_nth(2) [of ovalue "options w" k]
      by (simp add: removeOptionWithValue_def removeOption_options(2))
  qed
qed

text \<open>
  Claim C6. Take a widget whose options have pairwise distinct values (a fresh, empty
  widget is one) and run any finite sequence of \<open>addOption\<close> and \<open>removeOption\<close> calls.
  Then \<open>containsOptionWithValue v\<close> is true exactly when \<open>v\<close> is present on balance: it
  was there or has been added, and has not been removed afterwards.
\<close>

theorem contains_is_net_presence:
  "distinct (map ovalue (options w)) \<Longrightarrow>
     containsOptionWithValue (fold (applyCall innerHTML) cs w) v
       = netPresence (containsOptionWithValue w v) cs v"
proof (induction cs arbitrary: w)
  case Nil
  show ?case by simp
next
  case (Cons c cs)
  show ?case
  proof (cases c)
    case (AddOption u d)
    have "containsOptionWithValue (snd (addOption innerHTML u d w)) v
            = (containsOptionWithValue w v \<or> u = v)"
      by (auto simp add: containsOptionWithValue_iff addOption_values)
    with Cons.IH [OF addOption_distinct [OF Cons.prems], of innerHTML u d] AddOption
    show ?thesis by simp
  next
    case (RemoveOption u)
    have "containsOptionWithValue (snd (removeOptionWithValue u w)) v
            = (containsOptionWithValue w v \<and> u \<noteq> v)"
      using removeOptionWithValue_values(1) [OF Cons.prems, of u]
      by (auto simp add: containsOptionWithValue_iff)
    with Cons.IH [OF removeOptionWithValue_values(2) [OF Cons.prems], of u] RemoveOption
    show ?thesis by simp
  qed
qed

theorem contains_is_net_presence_witness:
  "distinct (map ovalue (options emptyWidget))
   \<and> containsOptionWithValue
        (fold (applyCall asWritten)
           [AddOption ''one'' ''One'', AddOption ''two'' ''Two'', RemoveOption ''one'']
           emptyWidget) ''two''
   \<and> \<not> containsOptionWithValue
        (fold (applyCall asWritten)
           [AddOption ''one'' ''One'', AddOption ''two'' ''Two'', RemoveOption ''one'']
           emptyWidget) ''one''"
proof -
  have d: "distinct (map ovalue (options emptyWidget))"
    by (simp add: emptyWidget_def)
  show ?thesis
    using d contains_is_net_presence [OF d, of asWritten "[AddOption ''one'' ''One'', AddOption ''two'' ''Two'', RemoveOption ''one'']" "''two''"]
      contains_is_net_presence [OF d, of asWritten "[AddOption ''one'' ''One'', AddOption ''two'' ''Two'', RemoveOption ''one'']" "''one''"]
    by (simp add: containsOptionWithValue_iff emptyWidget_def)
qed

subsection \<open>The value keyed operations\<close>

text \<open>The states of the test page are what the constructor and \<open>addOption\<close> build.\<close>

lemma built_emptyWidget: "construct emptySelect = Inr emptyWidget"
  by code_simp

lemma built_oneTwoThree:
  "fold (applyCall asWritten)
     [AddOption ''one'' ''One'', AddOption ''two'' ''Two'', AddOption ''three'' ''Three'']
     emptyWidget = oneTwoThree"
  by code_simp

lemma selectOption_returns: "i < length (options w) \<Longrightarrow> fst (selectOption (Element i) w) = None"
  by (simp add: selectOption_def Let_def)

lemma deselectOption_returns: "i < length (options w) \<Longrightarrow> fst (deselectOption i w) = None"
  by (simp add: deselectOption_def Let_def split: option.splits)

lemma findOptionWithValue_None:
  "findOptionWithValue w v = None \<longleftrightarrow> v \<notin> ovalue ` set (options w)"
  using findOptionFrom_None [of w v 0] by (simp add: findOptionWithValue_def)

lemma findOptionWithValue_Some:
  "findOptionWithValue w v = Some k \<Longrightarrow>
     k < length (options w) \<and> ovalue (options w ! k) = v \<and> v \<notin> ovalue ` set (take k (options w))"
  using findOptionFrom_Some [of w v 0 k] by (simp add: findOptionWithValue_def)

text \<open>
  Claim C3. When no option has the value \<open>v\<close>, each of \<open>selectOptionWithValue\<close>,
  \<open>deselectOptionWithValue\<close> and \<open>removeOptionWithValue\<close> throws at once (the \<open>Error\<close> that
  says the widget does not contain an option with that value) and leaves the options,
  their selection and the chips as they were; when an option with the value exists, none
  of them throws.
\<close>

theorem value_keyed_not_found:
  "(v \<notin> ovalue ` set (options w) \<longrightarrow>
      selectOptionWithValue v w = (Some (notFound v), w)
      \<and> deselectOptionWithValue v w = (Some (notFound v), w)
      \<and> removeOptionWithValue v w = (Some (notFound v), w))
   \<and> (v \<in> ovalue ` set (options w) \<longrightarrow>
      fst (selectOptionWithValue v w) = None
      \<and> fst (deselectOptionWithValue v w) = None
      \<and> fst (removeOptionWithValue v w) = None)"
proof (cases "findOptionWithValue w v")
  case None
  then have "v \<notin> ovalue ` set (options w)"
    by (simp add: findOptionWithValue_None)
  with None show ?thesis
    by (simp add: selectOptionWithValue_def deselectOptionWithValue_def removeOptionWithValue_def)
next
  case (Some k)
  then have k: "k < length (options w)" and "ovalue (options w ! k) = v"
    using findOptionWithValue_Some by blast+
  then have "v \<in> ovalue ` set (options w)"
    by (metis imageI nth_mem)
  with Some k show ?thesis
    by (simp add: selectOptionWithValue_def deselectOptionWithValue_def removeOptionWithValue_def
        selectOption_returns deselectOption_returns removeOption_options(1))
qed

theorem value_keyed_not_found_witness:
  "(''four'' \<notin> ovalue ` set (options oneTwoThree)
      \<and> selectOptionWithValue ''four'' oneTwoThree = (Some (notFound ''four''), oneTwoThree)
      \<and> deselectOptionWithValue ''four'' oneTwoThree = (Some (notFound ''four''), oneTwoThree)
      \<and> removeOptionWithValue ''four'' oneTwoThree = (Some (notFound ''four''), oneTwoThree))
   \<and> (''two'' \<in> ovalue ` set (options oneTwoThree)
      \<and> fst (selectOptionWithValue ''two'' oneTwoThree) = None
      \<and> fst (deselectOptionWithValue ''two'' oneTwoThree) = None
      \<and> fst (removeOptionWithValue ''two'' oneTwoThree) = None)"
proof -
  have a: "''four'' \<notin> ovalue ` set (options oneTwoThree)"
    by (simp add: oneTwoThree_def)
  have b: "''two'' \<in> ovalue ` set (options oneTwoThree)"
    by (simp add: oneTwoThree_def)
  from a b value_keyed_not_found [of "''four''" oneTwoThree]
    value_keyed_not_found [of "''two''" oneTwoThree]
  show ?thesis by blast
qed

subsection \<open>The selectable options\<close>

lemma startsWith_prefix: "startsWith s p \<longleftrightarrow> prefix p s"
  by (induction s p rule: startsWith.induct) auto

lemma selectable_test:
  "selectable pfx option \<longleftrightarrow>
     \<not> oselected option \<and> (pfx = None \<or> startsWith (ohtml option) (the pfx))"
  by (cases pfx) (simp_all add: selectable_def startsWith_prefix)

lemma selectableLoop_filter:
  "selectableLoop w pfx i acc
     = acc @ map ohtml (filter (selectable pfx) (drop i (options w)))"
proof (induction w pfx i acc rule: selectableLoop.induct)
  case (1 w pfx i acc)
  show ?case
  proof (cases "i < length (options w)")
    case True
    note lt = this
    then have d: "drop i (options w) = options w ! i # drop (Suc i) (options w)"
      by (simp add: Cons_nth_drop_Suc)
    show ?thesis
    proof (cases "oselected (options w ! i)")
      case True
      with lt "1.IH"(1) have "selectableLoop w pfx (Suc i) acc
          = acc @ map ohtml (filter (selectable pfx) (drop (Suc i) (options w)))"
        by simp
      with lt True show ?thesis
        by (subst selectableLoop.simps) (simp add: d selectable_test)
    next
      case False
      note unselected = this
      show ?thesis
      proof (cases "pfx = None \<or> startsWith (ohtml (options w ! i)) (the pfx)")
        case True
        with lt unselected "1.IH"(2)
        have "selectableLoop w pfx (Suc i) (acc @ [ohtml (options w ! i)])
          = (acc @ [ohtml (options w ! i)])
              @ map ohtml (filter (selectable pfx) (drop (Suc i) (options w)))"
          by simp
        with lt unselected True show ?thesis
          by (subst selectableLoop.simps) (simp add: d selectable_test)
      next
        case False
        with lt unselected "1.IH"(3)
        have "selectableLoop w pfx (Suc i) acc
          = acc @ map ohtml (filter (selectable pfx) (drop (Suc i) (options w)))"
          by simp
        with lt unselected False show ?thesis
          by (subst selectableLoop.simps) (auto simp add: d selectable_test)
      qed
    qed
  next
    case False
    then show ?thesis
      by (subst selectableLoop.simps) simp
  qed
qed

lemma selectableOptionsForPrefix_sort:
  "selectableOptionsForPrefix w pfx = sort (map ohtml (filter (selectable pfx) (options w)))"
  by (cases "map ohtml (filter (selectable pfx) (options w))")
    (simp_all add: selectableOptionsForPrefix_def selectableLoop_filter Let_def)

text \<open>
  Claim C1, as amended. For every query \<open>q\<close>, \<open>selectableOptionsForPrefix\<close> returns the
  display texts of exactly those unselected options whose display text starts with \<open>q\<close>,
  letter case respected (all unselected display texts when \<open>q\<close> is empty or absent),
  sorted by code units: the result is the sorted list of these texts, with their
  multiplicities.
\<close>

theorem selectableOptionsForPrefix_prefix:
  "selectableOptionsForPrefix w pfx
     = sort (map ohtml (filter (selectable pfx) (options w)))
   \<and> sorted (selectableOptionsForPrefix w pfx)
   \<and> mset (selectableOptionsForPrefix w pfx)
       = image_mset ohtml (filter_mset (selectable pfx) (mset (options w)))"
  by (simp add: selectableOptionsForPrefix_sort)

text \<open>
  The claim as stated asks for a substring match that ignores letter case. With the
  options One, Two and Three unselected, the query \<open>t\<close> selects nothing in the code,
  where the specification expects Three and Two.
\<close>

theorem search_is_not_substring_search:
  "selectableOptionsForPrefix oneTwoThree (Some ''t'') = []
   \<and> search_spec oneTwoThree (Some ''t'') = [''Three'', ''Two'']"
  by code_simp

lemma search_capital_T:
  "selectableOptionsForPrefix oneTwoThree (Some ''T'') = [''Three'', ''Two'']
   \<and> selectableOptionsForPrefix oneTwoThree None = [''One'', ''Three'', ''Two'']"
  by code_simp

subsection \<open>Identifiers\<close>

text \<open>
  Claim C9. The chip of an option should carry the identifier \<open>I-option-V\<close> with every
  space of the value replaced. \<open>makeOptionID\<close> calls \<open>replace(' ', '-')\<close>, which replaces
  the first space only: the chip for the value \<open>new york city\<close> on the control
  \<open>multiple-select\<close> gets an identifier that still holds a space.
\<close>

theorem chip_id_keeps_spaces:
  "map chipID (chips (snd (selectOptionWithValue ''new york city''
      (snd (addOption innerHTML ''new york city'' ''New York City'' emptyWidget)))))
   = [''multiple-select-option-new-york city'']"
  by code_simp

text \<open>
  The identifier of a chip never equals that of the select, the display container, the
  input row or the input; it equals that of the list exactly for the value \<open>list\<close>.
\<close>

lemma replaceFirst_no_space: "CHR '' '' \<notin> set v \<Longrightarrow> replaceFirst CHR '' '' ''-'' v = v"
  by (induction v) auto

lemma makeOptionID_not_static:
  "makeOptionID w option \<noteq> elementID w"
  "makeOptionID w option \<noteq> elementID w @ ''-display''"
  "makeOptionID w option \<noteq> elementID w @ ''-input-option''"
  "makeOptionID w option \<noteq> elementID w @ ''-input''"
  by (simp_all add: makeOptionID_def)

lemma makeOptionID_list:
  "makeOptionID w option = elementID w @ ''-option-list'' \<longleftrightarrow> ovalue option = ''list''"
proof -
  have "replaceFirst CHR '' '' ''-'' v = ''list'' \<longleftrightarrow> v = ''list''" for v
  proof
    assume r: "replaceFirst CHR '' '' ''-'' v = ''list''"
    have "CHR '' '' \<notin> set v"
    proof
      assume "CHR '' '' \<in> set v"
      then have "CHR ''-'' \<in> set (replaceFirst CHR '' '' ''-'' v)"
        by (induction v) auto
      with r show False by simp
    qed
    with r show "v = ''list''" by (simp add: replaceFirst_no_space)
  qed simp
  then show ?thesis by (simp add: makeOptionID_def)
qed

subsection \<open>The constructor\<close>

lemma selectOption_static:
  "elementID (snd (selectOption (Element i) w)) = elementID w"
  "displayID (snd (selectOption (Element i) w)) = displayID w"
  "listID (snd (selectOption (Element i) w)) = listID w"
  "inputOptionID (snd (selectOption (Element i) w)) = inputOptionID w"
  "inputID (snd (selectOption (Element i) w)) = inputID w"
  "length (options (snd (selectOption (Element i) w))) = length (options w)"
  by (simp_all add: selectOption_def Let_def)

lemma rebuildLoop_static:
  "fst (rebuildLoop i w) = None
   \<and> elementID (snd (rebuildLoop i w)) = elementID w
   \<and> displayID (snd (rebuildLoop i w)) = displayID w
   \<and> listID (snd (rebuildLoop i w)) = listID w
   \<and> inputOptionID (snd (rebuildLoop i w)) = inputOptionID w
   \<and> inputID (snd (rebuildLoop i w)) = inputID w"
proof (induction i w rule: rebuildLoop.induct)
  case (1 i w)
  show ?case
  proof (cases "i < length (options w)")
    case True
    note lt = this
    show ?thesis
    proof (cases "oselected (options w ! i)")
      case True
      obtain w' where s: "selectOption (Element i) w = (None, w')"
        using selectOption_returns [OF lt] by (cases "selectOption (Element i) w") simp
      from "1.IH"(1) lt True s selectOption_static [of i w]
      show ?thesis
        by (subst (1 2 3 4 5 6) rebuildLoop.simps) simp
    next
      case False
      with "1.IH"(2) lt show ?thesis
        by (subst (1 2 3 4 5 6) rebuildLoop.simps) simp
    qed
  next
    case False
    then show ?thesis
      by (subst (1 2 3 4 5 6) rebuildLoop.simps) simp
  qed
qed

lemma rebuildDisplay_returns: "fst (rebuildDisplay w) = None"
  by (simp add: rebuildDisplay_def Let_def rebuildLoop_static)

lemma rebuildDisplay_ids:
  "elementID (snd (rebuildDisplay w)) = elementID w"
  "displayID (snd (rebuildDisplay w)) = displayID w"
  "listID (snd (rebuildDisplay w)) = listID w"
  "inputOptionID (snd (rebuildDisplay w)) = elementID w @ ''-input-option''"
  "inputID (snd (rebuildDisplay w)) = elementID w @ ''-input''"
  by (simp_all add: rebuildDisplay_def Let_def rebuildLoop_static)

lemma construct_Inr:
  assumes "construct p = Inr w"
  shows "\<exists>n children. w = snd (rebuildDisplay (beforeRebuild (givenID p) n (pageOptions p) children))"
proof -
  from assms have g: "tagName p = ''SELECT''" "multipleAttr p = Some ''multiple''"
    by (auto simp add: construct_def split: if_splits)
  show ?thesis
  proof (cases "idAttr p")
    case None
    show ?thesis
    proof (cases "pageDisplay p")
      case NoDisplay
      with assms g None show ?thesis
        by (simp add: construct_def givenID_def split: prod.splits option.splits) (metis snd_conv)
    next
      case DisplayWithoutList
      with assms g None show ?thesis
        by (simp add: construct_def)
    next
      case (DisplayWithList children)
      with assms g None show ?thesis
        by (simp add: construct_def givenID_def split: prod.splits option.splits) (metis snd_conv)
    qed
  next
    case (Some s)
    show ?thesis
    proof (cases "pageDisplay p")
      case NoDisplay
      with assms g Some show ?thesis
        by (simp add: construct_def givenID_def split: prod.splits option.splits) (metis snd_conv)
    next
      case DisplayWithoutList
      with assms g Some show ?thesis
        by (simp add: construct_def)
    next
      case (DisplayWithList children)
      with assms g Some show ?thesis
        by (simp add: construct_def givenID_def split: prod.splits option.splits) (metis snd_conv)
    qed
  qed
qed

lemma construct_ids:
  assumes "construct p = Inr w"
  shows "elementID w = givenID p"
    and "displayID w = givenID p @ ''-display''"
    and "listID w = givenID p @ ''-option-list''"
    and "inputOptionID w = givenID p @ ''-input-option''"
    and "inputID w = givenID p @ ''-input''"
proof -
  from construct_Inr [OF assms] obtain n children
    where w: "w = snd (rebuildDisplay (beforeRebuild (givenID p) n (pageOptions p) children))"
    by blast
  show "elementID w = givenID p" "displayID w = givenID p @ ''-display''"
    "listID w = givenID p @ ''-option-list''"
    "inputOptionID w = givenID p @ ''-input-option''"
    "inputID w = givenID p @ ''-input''"
    unfolding w by (simp_all add: rebuildDisplay_ids beforeRebuild_def)
qed

text \<open>
  Claim C4, as amended. The constructor fails at one of its two guards exactly when the
  element's tag name is not \<open>SELECT\<close> or its \<open>multiple\<close> attribute does not have the
  value \<open>multiple\<close>; no widget is produced then. When both guards pass, and the document
  does not hold a display container without its list, the construction completes and
  yields the widget.
\<close>

theorem construct_guards:
  "((\<exists>e. construct p = Inl e \<and> isConfigurationError e)
      \<longleftrightarrow> (tagName p \<noteq> ''SELECT'' \<or> multipleAttr p \<noteq> Some ''multiple''))
   \<and> (tagName p = ''SELECT'' \<and> multipleAttr p = Some ''multiple''
        \<and> pageDisplay p \<noteq> DisplayWithoutList \<longrightarrow> (\<exists>w. construct p = Inr w))"
proof -
  have r: "\<exists>w. rebuildDisplay w0 = (None, w)" for w0
    using rebuildDisplay_returns [of w0] by (cases "rebuildDisplay w0") simp
  have ok: "\<exists>w. construct p = Inr w"
    if "tagName p = ''SELECT''" "multipleAttr p = Some ''multiple''"
      "pageDisplay p \<noteq> DisplayWithoutList"
  proof (cases "pageDisplay p")
    case NoDisplay
    with that r [of "beforeRebuild (fst (case idAttr p of
                 None \<Rightarrow> (''prime-multiple-select'' @ string_of_nat (pageCount p), Suc (pageCount p))
               | Some s \<Rightarrow> (s, pageCount p))) (snd (case idAttr p of
                 None \<Rightarrow> (''prime-multiple-select'' @ string_of_nat (pageCount p), Suc (pageCount p))
               | Some s \<Rightarrow> (s, pageCount p))) (pageOptions p) []"]
    show ?thesis
      by (auto simp add: construct_def Let_def split: prod.splits option.splits)
  next
    case DisplayWithoutList
    with that show ?thesis by simp
  next
    case (DisplayWithList children)
    with that r [of "beforeRebuild (fst (case idAttr p of
                 None \<Rightarrow> (''prime-multiple-select'' @ string_of_nat (pageCount p), Suc (pageCount p))
               | Some s \<Rightarrow> (s, pageCount p))) (snd (case idAttr p of
                 None \<Rightarrow> (''prime-multiple-select'' @ string_of_nat (pageCount p), Suc (pageCount p))
               | Some s \<Rightarrow> (s, pageCount p))) (pageOptions p) children"]
    show ?thesis
      by (auto simp add: construct_def Let_def split: prod.splits option.splits)
  qed
  have guards: "(\<exists>e. construct p = Inl e \<and> isConfigurationError e)
      \<longleftrightarrow> (tagName p \<noteq> ''SELECT'' \<or> multipleAttr p \<noteq> Some ''multiple'')"
  proof
    assume "\<exists>e. construct p = Inl e \<and> isConfigurationError e"
    then obtain e where e: "construct p = Inl e" "isConfigurationError e" by blast
    show "tagName p \<noteq> ''SELECT'' \<or> multipleAttr p \<noteq> Some ''multiple''"
    proof (rule ccontr)
      assume "\<not> (tagName p \<noteq> ''SELECT'' \<or> multipleAttr p \<noteq> Some ''multiple'')"
      then have g: "tagName p = ''SELECT''" "multipleAttr p = Some ''multiple''" by simp_all
      show False
      proof (cases "pageDisplay p = DisplayWithoutList")
        case True
        with g have "construct p = Inl NullTypeError"
          by (simp add: construct_def Let_def split: prod.splits)
        with e show False
          by (simp add: isConfigurationError_def notSelect_def notMultiple_def)
      next
        case False
        with g ok e(1) show False by auto
      qed
    qed
  next
    assume "tagName p \<noteq> ''SELECT'' \<or> multipleAttr p \<noteq> Some ''multiple''"
    then show "\<exists>e. construct p = Inl e \<and> isConfigurationError e"
      by (auto simp add: construct_def isConfigurationError_def)
  qed
  from guards ok show ?thesis by blast
qed

text \<open>
  The claim as stated lets every select with the multiple flag through. The guard compares
  the attribute's value with the string \<open>multiple\<close>, so a select whose flag is written
  as a bare attribute is rejected.
\<close>

theorem construct_rejects_boolean_multiple:
  "tagName booleanMultiple = ''SELECT''
   \<and> multipleAttr booleanMultiple \<noteq> None
   \<and> construct booleanMultiple = Inl notMultiple"
  by (simp add: booleanMultiple_def emptySelect_def construct_def)

theorem construct_guards_witness:
  "(tagName booleanMultiple = ''SELECT'' \<and> multipleAttr booleanMultiple \<noteq> Some ''multiple''
      \<and> (\<exists>e. construct booleanMultiple = Inl e \<and> isConfigurationError e))
   \<and> (tagName emptySelect = ''SELECT'' \<and> multipleAttr emptySelect = Some ''multiple''
      \<and> pageDisplay emptySelect \<noteq> DisplayWithoutList \<and> (\<exists>w. construct emptySelect = Inr w))"
proof -
  have a: "tagName booleanMultiple = ''SELECT''" "multipleAttr booleanMultiple \<noteq> Some ''multiple''"
    by (simp_all add: booleanMultiple_def emptySelect_def)
  have b: "tagName emptySelect = ''SELECT''" "multipleAttr emptySelect = Some ''multiple''"
    "pageDisplay emptySelect \<noteq> DisplayWithoutList"
    by (simp_all add: emptySelect_def)
  from a b construct_guards [of booleanMultiple] construct_guards [of emptySelect]
  show ?thesis by blast
qed

subsection \<open>Chips and selected options\<close>

lemma built_twoSpellings:
  "snd (selectOptionWithValue ''a b''
     (fold (applyCall asWritten) [AddOption ''a b'' ''A B'', AddOption ''a-b'' ''A-B''] emptyWidget))
   = twoSpellings"
  by code_simp

lemma built_listOption:
  "fold (applyCall asWritten) [AddOption ''list'' ''List''] emptyWidget = listOption"
  by code_simp

lemma findChip_None: "findChip s cs = None \<longleftrightarrow> s \<notin> chipID ` set cs"
  by (induction cs) auto

lemma findChip_Some: "findChip s cs = Some k \<Longrightarrow> k < length cs \<and> chipID (cs ! k) = s"
proof (induction cs arbitrary: k)
  case Nil
  then show ?case by simp
next
  case (Cons c cs)
  show ?case
  proof (cases "chipID c = s")
    case True
    with Cons.prems show ?thesis by simp
  next
    case False
    with Cons.prems obtain j where j: "findChip s cs = Some j" "k = Suc j"
      by auto
    from Cons.IH [OF j(1)] j(2) show ?thesis by simp
  qed
qed

lemma mset_without_nth:
  assumes "k < length cs"
  shows "mset (take k cs @ drop (Suc k) cs) = mset cs - {#cs ! k#}"
proof -
  from assms have "cs = take k cs @ cs ! k # drop (Suc k) cs"
    by (rule id_take_nth_drop)
  then have "mset cs = mset (take k cs @ drop (Suc k) cs) + {#cs ! k#}"
    by (metis mset.simps(2) mset_append union_mset_add_mset_right add.right_neutral
        add_mset_add_single)
  then show ?thesis by simp
qed

lemma rest_and_nth:
  assumes "i < length xs"
  shows "mset (map f (filter P xs))
    = mset (map f (filter P (take i xs @ drop (Suc i) xs)))
      + (if P (xs ! i) then {#f (xs ! i)#} else {#})"
proof -
  from assms have "xs = take i xs @ xs ! i # drop (Suc i) xs"
    by (rule id_take_nth_drop)
  then have "mset (map f (filter P xs))
      = mset (map f (filter P (take i xs @ xs ! i # drop (Suc i) xs)))"
    by simp
  then show ?thesis by simp
qed

lemma rest_and_update:
  assumes "i < length xs"
  shows "mset (map f (filter P (xs[i := y])))
    = mset (map f (filter P (take i xs @ drop (Suc i) xs)))
      + (if P y then {#f y#} else {#})"
  using assms by (simp add: upd_conv_take_nth_drop)

lemma chipOf_simps [simp]:
  "chipOf (w\<lparr>options := os\<rparr>) = chipOf w"
  "chipOf (w\<lparr>chips := cs\<rparr>) = chipOf w"
  "chipOf (w\<lparr>listAttached := b\<rparr>) = chipOf w"
  "chipOf w (option\<lparr>oselected := s\<rparr>) = chipOf w option"
  "chipID (chipOf w option) = makeOptionID w option"
  by (simp_all add: chipOf_def makeOptionID_def fun_eq_iff)

lemma makeOptionID_simps [simp]:
  "makeOptionID (w\<lparr>options := os\<rparr>) = makeOptionID w"
  "makeOptionID (w\<lparr>chips := cs\<rparr>) = makeOptionID w"
  "makeOptionID w (option\<lparr>oselected := s\<rparr>) = makeOptionID w option"
  by (simp_all add: makeOptionID_def fun_eq_iff)

text \<open>A selected option has its chip among the chips, hence its identifier is found.\<close>

lemma selected_has_chip:
  assumes "chipsMatchSelection w" and "i < length (options w)" and "oselected (options w ! i)"
  shows "makeOptionID w (options w ! i) \<in> chipID ` set (chips w)"
proof -
  from assms(2,3) have "options w ! i \<in> set (filter oselected (options w))"
    by simp
  then have "chipOf w (options w ! i) \<in># mset (map (chipOf w) (filter oselected (options w)))"
    by simp
  with assms(1) have "chipOf w (options w ! i) \<in> set (chips w)"
    by (metis chipsMatchSelection_def set_mset_mset)
  then have "chipID (chipOf w (options w ! i)) \<in> chipID ` set (chips w)"
    by (rule imageI)
  then show ?thesis by simp
qed

text \<open>A chip found under an option's identifier is that option's chip, and the option is selected.\<close>

lemma chip_belongs_to_option:
  assumes inv: "chipsMatchSelection w" and d: "chipIDsDistinct w"
    and i: "i < length (options w)"
    and k: "k < length (chips w)" "chipID (chips w ! k) = makeOptionID w (options w ! i)"
  shows "oselected (options w ! i) \<and> chips w ! k = chipOf w (options w ! i)"
proof -
  from k(1) have "chips w ! k \<in># mset (chips w)" by simp
  with inv have "chips w ! k \<in> set (map (chipOf w) (filter oselected (options w)))"
    by (metis chipsMatchSelection_def set_mset_mset)
  then obtain option where o: "option \<in> set (options w)" "oselected option"
    "chips w ! k = chipOf w option"
    by auto
  from o(3) k(2) have "makeOptionID w option = makeOptionID w (options w ! i)"
    by simp
  moreover from d have "inj_on (makeOptionID w) (set (options w))"
    by (simp add: chipIDsDistinct_def distinct_map)
  moreover from i have "options w ! i \<in> set (options w)" by simp
  ultimately have "option = options w ! i"
    using o(1) by (simp add: inj_on_def)
  with o show ?thesis by simp
qed


lemma queryByID_options [simp]: "queryByID (w\<lparr>options := os\<rparr>) s = queryByID w s"
  by (simp add: queryByID_def)

lemma query_option_id:
  assumes "chipsMatchSelection w" and "chipIDsDistinct w" and "i < length (options w)"
  shows "queryByID w (makeOptionID w (options w ! i))
    = map_option ChipNode (findChip (makeOptionID w (options w ! i)) (chips w))"
proof -
  from assms(3) have "makeOptionID w (options w ! i) \<in> set (map (makeOptionID w) (options w))"
    by simp
  with assms(2) have "listID w \<noteq> makeOptionID w (options w ! i)"
    by (auto simp add: chipIDsDistinct_def)
  with assms(1) show ?thesis
    by (simp add: queryByID_def chipsMatchSelection_def)
qed

lemma addOption_keeps_match:
  "chipsMatchSelection w \<Longrightarrow> chipsMatchSelection (snd (addOption innerHTML v display w))"
  by (simp add: addOption_def chipsMatchSelection_def)

lemma selectOption_keeps_match:
  assumes inv: "chipsMatchSelection w"
  shows "chipsMatchSelection (snd (selectOption (Element i) w))"
proof (cases "i < length (options w) \<and> queryByID w (makeOptionID w (options w ! i)) = None")
  case False
  with inv show ?thesis
    by (auto simp add: selectOption_def Let_def)
next
  case True
  then have i: "i < length (options w)"
    and q: "queryByID w (makeOptionID w (options w ! i)) = None"
    by simp_all
  from inv have att: "listAttached w" by (simp add: chipsMatchSelection_def)
  from q att have "findChip (makeOptionID w (options w ! i)) (chips w) = None"
    by (simp add: queryByID_def split: if_splits)
  then have "makeOptionID w (options w ! i) \<notin> chipID ` set (chips w)"
    by (simp add: findChip_None)
  with selected_has_chip [OF inv i] have unsel: "\<not> oselected (options w ! i)"
    by blast
  from inv have "mset (chips w) = mset (map (chipOf w) (filter oselected (options w)))"
    by (simp add: chipsMatchSelection_def)
  with unsel rest_and_nth [OF i, of "chipOf w" oselected]
  have old: "mset (chips w)
      = mset (map (chipOf w) (filter oselected (take i (options w) @ drop (Suc i) (options w))))"
    by simp
  have new: "mset (map (chipOf w)
        (filter oselected ((options w)[i := (options w ! i)\<lparr>oselected := True\<rparr>])))
      = mset (map (chipOf w) (filter oselected (take i (options w) @ drop (Suc i) (options w))))
        + {#chipOf w (options w ! i)#}"
    using rest_and_update [OF i, of "chipOf w" oselected "(options w ! i)\<lparr>oselected := True\<rparr>"]
    by simp
  from i q att old new show ?thesis
    by (simp add: selectOption_def Let_def chipsMatchSelection_def chipOf_def)
qed

lemma deselectOption_keeps_match:
  assumes inv: "chipsMatchSelection w" and d: "chipIDsDistinct w"
  shows "chipsMatchSelection (snd (deselectOption i w))"
proof (cases "i < length (options w)")
  case False
  with inv show ?thesis by (simp add: deselectOption_def)
next
  case True
  note i = this
  define option where "option = options w ! i"
  define rest where
    "rest = mset (map (chipOf w) (filter oselected (take i (options w) @ drop (Suc i) (options w))))"
  from inv have att: "listAttached w"
    and m: "mset (chips w) = mset (map (chipOf w) (filter oselected (options w)))"
    by (simp_all add: chipsMatchSelection_def)
  from m rest_and_nth [OF i, of "chipOf w" oselected]
  have old: "mset (chips w) = rest + (if oselected option then {#chipOf w option#} else {#})"
    by (simp add: rest_def option_def)
  have new: "mset (map (chipOf w)
        (filter oselected ((options w)[i := option\<lparr>oselected := False\<rparr>]))) = rest"
    using rest_and_update [OF i, of "chipOf w" oselected "option\<lparr>oselected := False\<rparr>"]
    by (simp add: rest_def)
  have q: "queryByID (w\<lparr>options := (options w)[i := option\<lparr>oselected := False\<rparr>]\<rparr>)
        (makeOptionID w option)
      = map_option ChipNode (findChip (makeOptionID w option) (chips w))"
    using query_option_id [OF inv d i] by (simp add: option_def)
  show ?thesis
  proof (cases "findChip (makeOptionID w option) (chips w)")
    case None
    then have "makeOptionID w option \<notin> chipID ` set (chips w)"
      by (simp add: findChip_None)
    with selected_has_chip [OF inv i] have "\<not> oselected option"
      by (auto simp add: option_def)
    with old have "mset (chips w) = rest" by simp
    with i q None att new show ?thesis
      by (simp add: deselectOption_def Let_def chipsMatchSelection_def option_def [symmetric])
  next
    case (Some k)
    from findChip_Some [OF Some] have k: "k < length (chips w)"
      "chipID (chips w ! k) = makeOptionID w (options w ! i)"
      by (simp_all add: option_def)
    from chip_belongs_to_option [OF inv d i k]
    have sel: "oselected option" and c: "chips w ! k = chipOf w option"
      by (simp_all add: option_def)
    from old sel have "mset (chips w) = rest + {#chipOf w option#}" by simp
    with mset_without_nth [OF k(1)] c
    have "mset (take k (chips w) @ drop (Suc k) (chips w)) = rest"
      by simp
    with i q Some att new show ?thesis
      by (simp add: deselectOption_def Let_def chipsMatchSelection_def option_def [symmetric])
  qed
qed

lemma removeOption_keeps_match:
  assumes inv: "chipsMatchSelection w" and d: "chipIDsDistinct w"
  shows "chipsMatchSelection (snd (removeOption (Element i) w))"
proof (cases "i < length (options w)")
  case False
  with inv show ?thesis by (simp add: removeOption_def)
next
  case True
  note i = this
  define option where "option = options w ! i"
  define rest where
    "rest = mset (map (chipOf w) (filter oselected (take i (options w) @ drop (Suc i) (options w))))"
  from inv have att: "listAttached w"
    and m: "mset (chips w) = mset (map (chipOf w) (filter oselected (options w)))"
    by (simp_all add: chipsMatchSelection_def)
  from m rest_and_nth [OF i, of "chipOf w" oselected]
  have old: "mset (chips w) = rest + (if oselected option then {#chipOf w option#} else {#})"
    by (simp add: rest_def option_def)
  have q: "queryByID (w\<lparr>options := take i (options w) @ drop (Suc i) (options w)\<rparr>)
        (makeOptionID w option)
      = map_option ChipNode (findChip (makeOptionID w option) (chips w))"
    using query_option_id [OF inv d i] by (simp add: option_def)
  show ?thesis
  proof (cases "findChip (makeOptionID w option) (chips w)")
    case None
    then have "makeOptionID w option \<notin> chipID ` set (chips w)"
      by (simp add: findChip_None)
    with selected_has_chip [OF inv i] have "\<not> oselected option"
      by (auto simp add: option_def)
    with old have "mset (chips w) = rest" by simp
    with i q None att show ?thesis
      by (simp add: removeOption_def Let_def chipsMatchSelection_def option_def [symmetric]
          rest_def)
  next
    case (Some k)
    from findChip_Some [OF Some] have k: "k < length (chips w)"
      "chipID (chips w ! k) = makeOptionID w (options w ! i)"
      by (simp_all add: option_def)
    from chip_belongs_to_option [OF inv d i k]
    have sel: "oselected option" and c: "chips w ! k = chipOf w option"
      by (simp_all add: option_def)
    from old sel have "mset (chips w) = rest + {#chipOf w option#}" by simp
    with mset_without_nth [OF k(1)] c
    have "mset (take k (chips w) @ drop (Suc k) (chips w)) = rest"
      by simp
    with i q Some att show ?thesis
      by (simp add: removeOption_def Let_def chipsMatchSelection_def option_def [symmetric]
          rest_def)
  qed
qed

lemma removeOption_handle_keeps_match:
  "chipsMatchSelection w \<Longrightarrow> chipIDsDistinct w
     \<Longrightarrow> chipsMatchSelection (snd (removeOption option w))"
  by (cases option) (simp_all add: removeOption_keeps_match, simp add: removeOption_def)

lemma selectOption_handle_keeps_match:
  "chipsMatchSelection w \<Longrightarrow> chipsMatchSelection (snd (selectOption option w))"
  by (cases option) (simp_all add: selectOption_keeps_match, simp add: selectOption_def)

text \<open>
  Where the chip identifiers of the options are pairwise distinct and differ from the
  identifier of the chip list, every operation keeps the chips in one to one
  correspondence with the selected options.
\<close>

lemma distinct_ids_keep_match:
  "chipsMatchSelection w \<Longrightarrow> chipIDsDistinct w
     \<Longrightarrow> chipsMatchSelection (snd (perform innerHTML op w))"
proof (cases op)
  case (Add v display)
  assume "chipsMatchSelection w"
  with Add show ?thesis by (simp add: addOption_keeps_match)
next
  case (Remove option)
  assume "chipsMatchSelection w" "chipIDsDistinct w"
  with Remove show ?thesis by (simp add: removeOption_handle_keeps_match)
next
  case (Select option)
  assume "chipsMatchSelection w"
  with Select show ?thesis by (simp add: selectOption_handle_keeps_match)
next
  case (Deselect i)
  assume "chipsMatchSelection w" "chipIDsDistinct w"
  with Deselect show ?thesis by (simp add: deselectOption_keeps_match)
next
  case (RemoveWithValue v)
  assume "chipsMatchSelection w" "chipIDsDistinct w"
  with RemoveWithValue show ?thesis
    by (simp add: removeOptionWithValue_def removeOption_keeps_match split: option.splits)
next
  case (SelectWithValue v)
  assume "chipsMatchSelection w"
  with SelectWithValue show ?thesis
    by (simp add: selectOptionWithValue_def selectOption_keeps_match split: option.splits)
next
  case (DeselectWithValue v)
  assume "chipsMatchSelection w" "chipIDsDistinct w"
  with DeselectWithValue show ?thesis
    by (simp add: deselectOptionWithValue_def deselectOption_keeps_match split: option.splits)
qed

lemma built_oneAndThreeSelected:
  "snd (selectOptionWithValue ''three'' (snd (selectOptionWithValue ''one'' oneTwoThree)))
   = oneAndThreeSelected"
  by code_simp

lemma oneAndThreeSelected_match: "chipsMatchSelection oneAndThreeSelected"
  by (simp add: chipsMatchSelection_def oneAndThreeSelected_def emptyWidget_def chipOf_def
      makeOptionID_def)

lemma oneAndThreeSelected_distinct: "chipIDsDistinct oneAndThreeSelected"
  by (simp add: chipIDsDistinct_def oneAndThreeSelected_def emptyWidget_def makeOptionID_def)

text \<open>
  Claim C2. After every public operation the rendered chips should correspond one to one
  with the selected options. Four public calls on the widget of the emptied select break
  this. The options \<open>a b\<close> and \<open>a-b\<close> have distinct values and the same chip identifier
  \<open>multiple-select-option-a-b\<close>. After both are added and \<open>a b\<close> is selected the chips
  match the selection; \<open>deselectOptionWithValue('a-b')\<close> then returns normally and removes
  the chip of \<open>a b\<close>, which stays selected with no chip.
\<close>

theorem chips_lost_by_colliding_id:
  "snd (selectOptionWithValue ''a b''
     (fold (applyCall asWritten) [AddOption ''a b'' ''A B'', AddOption ''a-b'' ''A-B''] emptyWidget))
     = twoSpellings
   \<and> distinct (map ovalue (options twoSpellings))
   \<and> chipsMatchSelection twoSpellings
   \<and> deselectOptionWithValue ''a-b'' twoSpellings = (None, twoSpellings\<lparr>chips := []\<rparr>)
   \<and> map ovalue (filter oselected (options (twoSpellings\<lparr>chips := []\<rparr>))) = [''a b'']
   \<and> \<not> chipsMatchSelection (twoSpellings\<lparr>chips := []\<rparr>)"
proof -
  have a: "distinct (map ovalue (options twoSpellings))"
    "map ovalue (filter oselected (options (twoSpellings\<lparr>chips := []\<rparr>))) = [''a b'']"
    by (simp_all add: twoSpellings_def)
  have b: "chipsMatchSelection twoSpellings"
    by (simp add: chipsMatchSelection_def twoSpellings_def emptyWidget_def chipOf_def
        makeOptionID_def)
  have c: "deselectOptionWithValue ''a-b'' twoSpellings = (None, twoSpellings\<lparr>chips := []\<rparr>)"
    by code_simp
  have d: "\<not> chipsMatchSelection (twoSpellings\<lparr>chips := []\<rparr>)"
    by (simp add: chipsMatchSelection_def twoSpellings_def emptyWidget_def)
  from a b c d built_twoSpellings show ?thesis by simp
qed

text \<open>Removing an option whose value is \<open>list\<close> takes the chip list out of the document.\<close>

lemma list_removed_with_option_list:
  "listAttached (snd (removeOptionWithValue ''list'' listOption)) = False"
  by code_simp

subsection \<open>Selecting twice\<close>

lemma findChip_append_last:
  "chipID c = s \<Longrightarrow> findChip s (cs @ [c]) \<noteq> None"
  by (simp add: findChip_None)

lemma selectOption_found:
  "i < length (options w) \<Longrightarrow> queryByID w (makeOptionID w (options w ! i)) = Some n
     \<Longrightarrow> selectOption (Element i) w = (None, w)"
  by (simp add: selectOption_def Let_def)

lemma selectOption_absent:
  "i < length (options w) \<Longrightarrow> queryByID w (makeOptionID w (options w ! i)) = None
     \<Longrightarrow> selectOption (Element i) w
       = (None, w\<lparr>options := (options w)[i := (options w ! i)\<lparr>oselected := True\<rparr>],
                    chips := chips w @ [chipOf w (options w ! i)]\<rparr>)"
  by (simp add: selectOption_def Let_def chipOf_def)

lemma selectOption_again:
  assumes "listAttached w"
  shows "selectOption (Element i) (snd (selectOption (Element i) w)) = selectOption (Element i) w"
proof (cases "i < length (options w)")
  case False
  then show ?thesis by (simp add: selectOption_def)
next
  case True
  note i = this
  show ?thesis
  proof (cases "queryByID w (makeOptionID w (options w ! i)) = None")
    case False
    then obtain n where "queryByID w (makeOptionID w (options w ! i)) = Some n"
      by blast
    from selectOption_found [OF i this] show ?thesis by simp
  next
    case True
    with assms have l: "listID w \<noteq> makeOptionID w (options w ! i)"
      by (auto simp add: queryByID_def split: if_splits)
    define w' where "w' = w\<lparr>options := (options w)[i := (options w ! i)\<lparr>oselected := True\<rparr>],
        chips := chips w @ [chipOf w (options w ! i)]\<rparr>"
    from selectOption_absent [OF i True] have s: "selectOption (Element i) w = (None, w')"
      by (simp add: w'_def)
    from i have id: "makeOptionID w' (options w' ! i) = makeOptionID w (options w ! i)"
      by (simp add: w'_def makeOptionID_def)
    from assms l have "queryByID w' (makeOptionID w (options w ! i)) \<noteq> None"
      by (simp add: queryByID_def w'_def findChip_None)
    with id obtain n where "queryByID w' (makeOptionID w' (options w' ! i)) = Some n"
      by auto
    moreover from i have "i < length (options w')" by (simp add: w'_def)
    ultimately have "selectOption (Element i) w' = (None, w')"
      by (simp add: selectOption_found)
    with s show ?thesis by simp
  qed
qed

text \<open>
  Claim C5. For an option with no chip, \<open>selectOption\<close> should mark it selected and insert
  its chip before the input row. An option whose value is \<open>list\<close> has the chip identifier
  \<open>multiple-select-option-list\<close>, which is the identifier of the chip list itself. Added to
  the widget of the emptied select, it has no chip and nothing is displayed for it, yet the
  lookup finds the list: \<open>selectOption\<close> and \<open>selectOptionWithValue\<close> return normally,
  leave it unselected and insert no chip.
\<close>

theorem option_list_is_never_selected:
  "snd (addOption asWritten ''list'' ''List'' emptyWidget) = listOption
   \<and> chips listOption = [] \<and> ovalue (options listOption ! 0) = ''list''
   \<and> selectOption (Element 0) listOption = (None, listOption)
   \<and> selectOptionWithValue ''list'' listOption = (None, listOption)
   \<and> \<not> oselected (options listOption ! 0)"
  by code_simp

subsection \<open>The correspondence from the constructor on\<close>

lemma selected_update_id:
  "i < length xs \<Longrightarrow> oselected (xs ! i) \<Longrightarrow> xs[i := (xs ! i)\<lparr>oselected := True\<rparr>] = xs"
  by (simp add: list_update_same_conv)

lemma id_not_among_earlier:
  assumes "distinct (map f xs)" and "i < length xs"
  shows "f (xs ! i) \<notin> f ` set (filter P (take i xs))"
proof
  assume "f (xs ! i) \<in> f ` set (filter P (take i xs))"
  then obtain x where x: "x \<in> set (take i xs)" "f x = f (xs ! i)" by auto
  then obtain j where j: "j < i" "x = xs ! j"
    using assms(2) by (auto simp add: in_set_conv_nth)
  with assms x have "map f xs ! j = map f xs ! i" "j < length (map f xs)" "i < length (map f xs)"
    by simp_all
  with assms(1) have "j = i" by (metis nth_eq_iff_index_eq)
  with j(1) show False by simp
qed

lemma rebuildLoop_chips:
  "chipIDsDistinct w \<Longrightarrow> listAttached w \<Longrightarrow>
     chips w = map (chipOf w) (filter oselected (take i (options w))) \<Longrightarrow>
     options (snd (rebuildLoop i w)) = options w
     \<and> chips (snd (rebuildLoop i w)) = map (chipOf w) (filter oselected (options w))
     \<and> listAttached (snd (rebuildLoop i w))"
proof (induction i w rule: rebuildLoop.induct)
  case (1 i w)
  show ?case
  proof (cases "i < length (options w)")
    case False
    with "1.prems" show ?thesis
      by (subst (1 2 3) rebuildLoop.simps) simp
  next
    case True
    note i = this
    then have t: "take (Suc i) (options w) = take i (options w) @ [options w ! i]"
      by (rule take_Suc_conv_app_nth)
    show ?thesis
    proof (cases "oselected (options w ! i)")
      case False
      from "1.prems"(3) t False
      have c: "chips w = map (chipOf w) (filter oselected (take (Suc i) (options w)))"
        by simp
      from "1.IH"(2) [OF i False "1.prems"(1,2) c] i False show ?thesis
        by (subst (1 2 3) rebuildLoop.simps) simp
    next
      case True
      note sel = this
      define w' where "w' = w\<lparr>chips := chips w @ [chipOf w (options w ! i)]\<rparr>"
      from "1.prems"(1) i have l: "listID w \<noteq> makeOptionID w (options w ! i)"
        by (auto simp add: chipIDsDistinct_def)
      from "1.prems"(1) have "distinct (map (makeOptionID w) (options w))"
        by (simp add: chipIDsDistinct_def)
      from id_not_among_earlier [OF this i, of oselected] "1.prems"(3)
      have "makeOptionID w (options w ! i) \<notin> chipID ` set (chips w)"
        by (simp add: image_image)
      then have "findChip (makeOptionID w (options w ! i)) (chips w) = None"
        by (simp add: findChip_None)
      with l "1.prems"(2) have "queryByID w (makeOptionID w (options w ! i)) = None"
        by (simp add: queryByID_def)
      from selectOption_absent [OF i this] selected_update_id [OF i sel]
      have s: "selectOption (Element i) w = (None, w')"
        by (simp add: w'_def)
      from "1.prems"(1) have d': "chipIDsDistinct w'"
        by (simp add: chipIDsDistinct_def w'_def makeOptionID_def)
      from "1.prems"(2) have a': "listAttached w'" by (simp add: w'_def)
      from "1.prems"(3) t sel
      have c': "chips w' = map (chipOf w') (filter oselected (take (Suc i) (options w')))"
        by (simp add: w'_def)
      from "1.IH"(1) i sel s d' a' c'
      have "options (snd (rebuildLoop (Suc i) w')) = options w'
        \<and> chips (snd (rebuildLoop (Suc i) w')) = map (chipOf w') (filter oselected (options w'))
        \<and> listAttached (snd (rebuildLoop (Suc i) w'))"
        by simp
      with i sel s show ?thesis
        by (subst (1 2 3) rebuildLoop.simps) (simp add: w'_def)
    qed
  qed
qed

lemma rebuildLoop_values:
  "map ovalue (options (snd (rebuildLoop i v))) = map ovalue (options v)"
proof (induction i v rule: rebuildLoop.induct)
  case (1 i v)
  show ?case
  proof (cases "i < length (options v)")
    case False
    then show ?thesis by (subst rebuildLoop.simps) simp
  next
    case True
    note i = this
    show ?thesis
    proof (cases "oselected (options v ! i)")
      case False
      with "1.IH"(2) i show ?thesis by (subst rebuildLoop.simps) simp
    next
      case True
      obtain v' where s: "selectOption (Element i) v = (None, v')"
        using selectOption_returns [OF i] by (cases "selectOption (Element i) v") simp
      have "map ovalue (options v') = map ovalue (options v)"
        using s i by (auto simp add: selectOption_def Let_def map_update list_update_same_conv
            split: if_splits)
      moreover from "1.IH"(1) i True s
      have "map ovalue (options (snd (rebuildLoop (Suc i) v'))) = map ovalue (options v')"
        by simp
      ultimately show ?thesis
        using s i True by (subst rebuildLoop.simps) simp
    qed
  qed
qed

lemma option_ids_by_values:
  "map (makeOptionID w) os
     = map (\<lambda>v. elementID w @ ''-option-'' @ replaceFirst CHR '' '' ''-'' v) (map ovalue os)"
  by (simp add: makeOptionID_def comp_def)

text \<open>
  The constructor leaves the chips in one to one correspondence with the selected
  options, provided the chip identifiers of the options are distinct.
\<close>

lemma construct_matches_selection:
  assumes "construct p = Inr w" and "chipIDsDistinct w"
  shows "chipsMatchSelection w"
proof -
  from construct_Inr [OF assms(1)] obtain n children
    where w: "w = snd (rebuildDisplay (beforeRebuild (givenID p) n (pageOptions p) children))"
    by blast
  define w0 where "w0 = (beforeRebuild (givenID p) n (pageOptions p) children)
      \<lparr>chips := [], inputOptionID := givenID p @ ''-input-option'', inputHidden := True,
        inputID := givenID p @ ''-input''\<rparr>"
  have r: "w = snd (rebuildLoop 0 w0)"
    by (simp add: w rebuildDisplay_def Let_def w0_def beforeRebuild_def)
  have e: "elementID w = elementID w0" "listID w = listID w0"
    by (simp_all add: r rebuildLoop_static)
  have a: "listAttached w0"
    and c: "chips w0 = map (chipOf w0) (filter oselected (take 0 (options w0)))"
    by (simp_all add: w0_def beforeRebuild_def)
  have "map ovalue (options w) = map ovalue (options w0)"
    by (simp add: r rebuildLoop_values)
  then have "map (makeOptionID w) (options w) = map (makeOptionID w0) (options w0)"
    by (simp only: option_ids_by_values e)
  with assms(2) e have d: "chipIDsDistinct w0"
    by (simp add: chipIDsDistinct_def)
  have "chipOf w = chipOf w0"
    by (simp add: chipOf_def makeOptionID_def e fun_eq_iff)
  with rebuildLoop_chips [OF d a c] r show ?thesis
    by (simp add: chipsMatchSelection_def)
qed

text \<open>
  The operations other than \<open>addOption\<close> keep the chip identifiers of the options
  distinct; \<open>addOption\<close> does when the identifier of the new option is a new one.
\<close>

lemma removeFromDOM_ids [simp]:
  "elementID (removeFromDOM n w) = elementID w" "listID (removeFromDOM n w) = listID w"
  by (cases n; simp)+

lemma makeOptionID_removeFromDOM [simp]: "makeOptionID (removeFromDOM n w) = makeOptionID w"
  by (cases n) (simp_all add: makeOptionID_def fun_eq_iff)

lemma chipIDsDistinct_by_values:
  "elementID w' = elementID w \<Longrightarrow> listID w' = listID w \<Longrightarrow>
     map ovalue (options w') = map ovalue (options w) \<Longrightarrow>
     chipIDsDistinct w' = chipIDsDistinct w"
  by (simp only: chipIDsDistinct_def option_ids_by_values)

lemma selectOption_keeps_ids:
  "chipIDsDistinct (snd (selectOption (Element i) w)) = chipIDsDistinct w"
  by (rule chipIDsDistinct_by_values)
    (simp_all add: selectOption_def Let_def map_update list_update_same_conv)

lemma deselectOption_keeps_ids:
  "chipIDsDistinct (snd (deselectOption i w)) = chipIDsDistinct w"
  by (rule chipIDsDistinct_by_values)
    (simp_all add: deselectOption_def Let_def map_update list_update_same_conv
      split: option.splits)

lemma removeOption_keeps_ids:
  assumes "chipIDsDistinct w"
  shows "chipIDsDistinct (snd (removeOption (Element i) w))"
proof (cases "i < length (options w)")
  case False
  with assms show ?thesis by (simp add: removeOption_def)
next
  case True
  note fold = id_take_nth_drop [OF True, symmetric]
  from assms have d: "distinct (map (makeOptionID w) (options w))"
    and l: "listID w \<notin> set (map (makeOptionID w) (options w))"
    by (simp_all add: chipIDsDistinct_def)
  have m: "distinct (map (makeOptionID w)
        (take i (options w) @ options w ! i # drop (Suc i) (options w)))"
    "listID w \<notin> set (map (makeOptionID w)
        (take i (options w) @ options w ! i # drop (Suc i) (options w)))"
    by (subst fold, rule d) (subst fold, rule l)
  from without_middle(2) [OF m(1)] m(2)
  have "distinct (map (makeOptionID w) (take i (options w) @ drop (Suc i) (options w)))"
    "listID w \<notin> set (map (makeOptionID w) (take i (options w) @ drop (Suc i) (options w)))"
    by simp_all
  with True show ?thesis
    by (auto simp add: removeOption_def Let_def chipIDsDistinct_def split: option.splits)
qed

lemma addOption_keeps_ids:
  assumes "chipIDsDistinct w"
    and "makeOptionID w \<lparr>ovalue = v, ohtml = display, oselected = False\<rparr>
           \<notin> insert (listID w) (set (map (makeOptionID w) (options w)))"
  shows "chipIDsDistinct (snd (addOption innerHTML v display w))"
  using assms by (auto simp add: addOption_def chipIDsDistinct_def makeOptionID_def)

end
